theory Spec2Isabelle
  imports Main "HOL-Library.AList"
begin

section \<open>Data model\<close>

text \<open>
  A JavaScript string is a sequence of UTF-16 code units. A plain object is the association
  list of its own properties in property order, as \<^verbatim>\<open>Object.entries\<close> lists them; an
  object has every key once, which is the hypothesis \<open>distinct (map fst ob)\<close> wherever a
  theorem needs it. The engine's reordering of keys that look like array indices is not
  modelled; no statement below depends on the order of the entries.

  Quantities of a snapshot are integers. A value of the investment record is a number or
  \<open>Other\<close>: a truthy value that is no number and converts to none. The script itself makes
  such values: a function or object inherited from \<^verbatim>\<open>Object.prototype\<close>, and the string that
  \<^verbatim>\<open>+\<close> makes of one and a number (\<^verbatim>\<open>function Object() { [native code] }3\<close>), which it
  stores and which \<^verbatim>\<open>+\<close> only makes longer.
\<close>

type_synonym jsstring = "nat list"

type_synonym obj = "(jsstring \<times> int) list"

datatype jsval = Num int | Other

type_synonym ledger = "(jsstring \<times> jsval) list"

definition ascii :: "string \<Rightarrow> jsstring" where
  "ascii s = map of_char s"

text \<open>
  The snapshots and the record are plain objects (object spreads, \<^verbatim>\<open>snapshot.data()\<close>), so
  \<^verbatim>\<open>ob[k]\<close> goes on to \<^verbatim>\<open>Object.prototype\<close> when \<open>k\<close> is no own key. Its property names
  in Node are the twelve below; each holds a function, \<^verbatim>\<open>__proto__\<close> gives the prototype
  object itself.
\<close>

definition object_prototype :: "jsstring list" where
  "object_prototype =
     map ascii [''constructor'', ''__defineGetter__'', ''__defineSetter__'', ''hasOwnProperty'',
                ''__lookupGetter__'', ''__lookupSetter__'', ''isPrototypeOf'',
                ''propertyIsEnumerable'', ''toString'', ''valueOf'', ''__proto__'',
                ''toLocaleString'']"

definition inherited :: "jsstring \<Rightarrow> bool" where
  "inherited k = (k \<in> set object_prototype)"

datatype 'a property = Missing | Own 'a | Inherited

text \<open>\<^verbatim>\<open>ob[k]\<close>: the own value, else the inherited one, else \<^verbatim>\<open>undefined\<close>.\<close>

definition get_prop :: "(jsstring \<times> 'a) list \<Rightarrow> jsstring \<Rightarrow> 'a property" where
  "get_prop ob k =
     (case map_of ob k of Some v \<Rightarrow> Own v
      | None \<Rightarrow> if inherited k then Inherited else Missing)"

text \<open>
  \<^verbatim>\<open>ob[k] = v\<close> for a number or a string \<open>v\<close>: an own key keeps its place, a new key is
  appended (\<open>AList.update\<close>). For \<^verbatim>\<open>__proto__\<close> that is no own key the assignment reaches
  the setter of \<^verbatim>\<open>Object.prototype\<close>, which ignores a value that is no object.
  \<^verbatim>\<open>delete ob[k]\<close> is \<open>AList.delete\<close>.
\<close>

definition set_prop :: "jsstring \<Rightarrow> 'a \<Rightarrow> (jsstring \<times> 'a) list \<Rightarrow> (jsstring \<times> 'a) list" where
  "set_prop k v ob =
     (if k = ascii ''__proto__'' \<and> map_of ob k = None then ob else AList.update k v ob)"

text \<open>
  \<^verbatim>\<open>itemsMap.get(key) || 0\<close> on a \<^verbatim>\<open>Map\<close>, which has its own entries only. It is also
  the quantity that the specification gives a name in a snapshot: its own value, 0 if absent.
\<close>

definition get_or0 :: "obj \<Rightarrow> jsstring \<Rightarrow> int" where
  "get_or0 ob k = (case map_of ob k of None \<Rightarrow> 0 | Some v \<Rightarrow> v)"

text \<open>
  \<^verbatim>\<open>!currentInventory[itemName]\<close>: true for \<^verbatim>\<open>undefined\<close> and for the number 0, false for
  an inherited function.
\<close>

definition falsy :: "obj \<Rightarrow> jsstring \<Rightarrow> bool" where
  "falsy ob k = (case get_prop ob k of Missing \<Rightarrow> True | Own v \<Rightarrow> v = 0 | Inherited \<Rightarrow> False)"

text \<open>
  \<^verbatim>\<open>prevInventory[itemName] || 0\<close> as a number; \<open>None\<close> when it is an inherited function,
  with which \<^verbatim>\<open>currentCount - prevCount\<close> is \<^verbatim>\<open>NaN\<close>.
\<close>

definition prev_count :: "obj \<Rightarrow> jsstring \<Rightarrow> int option" where
  "prev_count ob k =
     (case get_prop ob k of Missing \<Rightarrow> Some 0 | Own v \<Rightarrow> Some v | Inherited \<Rightarrow> None)"

text \<open>\<^verbatim>\<open>newInvestmentRecord[itemName] || 0\<close>.\<close>

definition invested_or0 :: "ledger \<Rightarrow> jsstring \<Rightarrow> jsval" where
  "invested_or0 ob k =
     (case get_prop ob k of Missing \<Rightarrow> Num 0 | Own v \<Rightarrow> v | Inherited \<Rightarrow> Other)"

text \<open>\<^verbatim>\<open>x + diff\<close> for a number \<open>diff\<close>: a sum of numbers, or a longer string.\<close>

definition plus_num :: "jsval \<Rightarrow> int \<Rightarrow> jsval" where
  "plus_num x d = (case x of Num v \<Rightarrow> Num (v + d) | Other \<Rightarrow> Other)"

text \<open>\<^verbatim>\<open>invested > 0\<close>: a value that is no number compares as \<^verbatim>\<open>NaN\<close>, which is false.\<close>

definition positive :: "jsval \<Rightarrow> bool" where
  "positive x = (case x of Num v \<Rightarrow> v > 0 | Other \<Rightarrow> False)"

section \<open>Reconciliation (the body of checkInventoryChanges)\<close>

text \<open>
  The state of both loops is the pair of \<^verbatim>\<open>newInvestmentRecord\<close> and \<^verbatim>\<open>hasChanges\<close>.
  One iteration of the first loop (\<^verbatim>\<open>// Procesar cambios\<close>), for the entry
  \<^verbatim>\<open>[itemName, currentCount]\<close> of \<^verbatim>\<open>currentInventory\<close>. When \<^verbatim>\<open>diff\<close> is \<^verbatim>\<open>NaN\<close>
  neither comparison holds. When \<^verbatim>\<open>invested\<close> is no number, \<^verbatim>\<open>Math.min\<close> gives \<^verbatim>\<open>NaN\<close>
  and \<^verbatim>\<open>sold > 0\<close> fails. In the branch \<^verbatim>\<open>sold > 0\<close> the record's own value is a positive
  number, so \<^verbatim>\<open>newInvestmentRecord[itemName] -= sold\<close> stores \<^verbatim>\<open>invested - sold\<close>.
\<close>

definition process_change :: "obj \<Rightarrow> jsstring \<times> int \<Rightarrow> ledger \<times> bool \<Rightarrow> ledger \<times> bool" where
  "process_change prevInventory entry st =
     (case entry of (itemName, currentCount) \<Rightarrow>
      case st of (newInvestmentRecord, hasChanges) \<Rightarrow>
        (case prev_count prevInventory itemName of
           None \<Rightarrow> (newInvestmentRecord, hasChanges)
         | Some prevCount \<Rightarrow>
             let diff = currentCount - prevCount
             in if diff > 0 then
                  (set_prop itemName (plus_num (invested_or0 newInvestmentRecord itemName) diff)
                     newInvestmentRecord, True)
                else if diff < 0 then
                  (case invested_or0 newInvestmentRecord itemName of
                     Other \<Rightarrow> (newInvestmentRecord, hasChanges)
                   | Num invested \<Rightarrow>
                       let sold = min \<bar>diff\<bar> invested
                       in if sold > 0 then
                            (set_prop itemName (Num (invested - sold)) newInvestmentRecord, True)
                          else (newInvestmentRecord, hasChanges))
                else (newInvestmentRecord, hasChanges)))"

definition process_changes :: "obj \<Rightarrow> obj \<Rightarrow> ledger \<times> bool \<Rightarrow> ledger \<times> bool" where
  "process_changes currentInventory prevInventory st =
     fold (process_change prevInventory) currentInventory st"

text \<open>
  One iteration of the second loop (\<^verbatim>\<open>// Procesar items eliminados\<close>), for the entry
  \<^verbatim>\<open>[itemName, invested]\<close>. The loop runs over \<^verbatim>\<open>Object.entries(newInvestmentRecord)\<close>,
  an array built before the first iteration, so the deletions do not change what is visited.
\<close>

definition process_removed_item :: "obj \<Rightarrow> jsstring \<times> jsval \<Rightarrow> ledger \<times> bool \<Rightarrow> ledger \<times> bool" where
  "process_removed_item currentInventory entry st =
     (case entry of (itemName, invested) \<Rightarrow>
      case st of (newInvestmentRecord, hasChanges) \<Rightarrow>
        if falsy currentInventory itemName \<and> positive invested then
          (AList.delete itemName newInvestmentRecord, True)
        else (newInvestmentRecord, hasChanges))"

definition process_removed :: "obj \<Rightarrow> ledger \<times> bool \<Rightarrow> ledger \<times> bool" where
  "process_removed currentInventory st =
     fold (process_removed_item currentInventory) (fst st) st"

text \<open>
  Lines 145 to 173: \<^verbatim>\<open>hasChanges = false\<close>, a copy of the stored record, then the two
  loops. The result is the new record and the flag.
\<close>

definition reconcile :: "obj \<Rightarrow> obj \<Rightarrow> ledger \<Rightarrow> ledger \<times> bool" where
  "reconcile currentInventory prevInventory investmentRecord =
     process_removed currentInventory
       (process_changes currentInventory prevInventory (investmentRecord, False))"

definition newLedger :: "obj \<Rightarrow> obj \<Rightarrow> ledger \<Rightarrow> ledger" where
  "newLedger currentInventory prevInventory investmentRecord =
     fst (reconcile currentInventory prevInventory investmentRecord)"

definition dirty :: "obj \<Rightarrow> obj \<Rightarrow> ledger \<Rightarrow> bool" where
  "dirty currentInventory prevInventory investmentRecord =
     snd (reconcile currentInventory prevInventory investmentRecord)"

text \<open>
  The value that the specification gives a name in a ledger: its own number, 0 if absent;
  none when the entry is no number.
\<close>

definition ledger_value :: "ledger \<Rightarrow> jsstring \<Rightarrow> int option" where
  "ledger_value led k =
     (case map_of led k of None \<Rightarrow> Some 0 | Some (Num v) \<Rightarrow> Some v | Some Other \<Rightarrow> None)"

text \<open>
  The second loop deletes exactly the keys that some visited entry condemns: a key whose
  quantity in the current inventory is falsy, visited with a positive value.
\<close>

definition condemned :: "obj \<Rightarrow> ledger \<Rightarrow> jsstring \<Rightarrow> bool" where
  "condemned cur entries k = (falsy cur k \<and> (\<exists>v. (k, v) \<in> set entries \<and> positive v))"

text \<open>
  What one iteration of the first loop leaves under its own item name, as a function of the
  name, the count, the previous count and the own value before (\<open>None\<close> when the key is
  missing).
\<close>

definition stored_after :: "jsstring \<Rightarrow> int \<Rightarrow> int option \<Rightarrow> jsval option \<Rightarrow> jsval option" where
  "stored_after n currentCount prevCount old =
     (case prevCount of
        None \<Rightarrow> old
      | Some p \<Rightarrow>
          let invested = (case old of Some v \<Rightarrow> v
                          | None \<Rightarrow> if inherited n then Other else Num 0);
              ignored = (n = ascii ''__proto__'' \<and> old = None);
              diff = currentCount - p
          in if diff > 0 then (if ignored then old else Some (plus_num invested diff))
             else if diff < 0 then
               (case invested of
                  Other \<Rightarrow> old
                | Num i \<Rightarrow> if min \<bar>diff\<bar> i > 0
                            then (if ignored then old else Some (Num (i - min \<bar>diff\<bar> i)))
                            else old)
             else old)"

section \<open>Change lines of the notification\<close>

text \<open>
  Decimal rendering of an integer quantity inside a template literal (the exponent notation
  of numbers from \<open>10\<^sup>2\<^sup>1\<close> on is not modelled).
\<close>

fun show_nat :: "nat \<Rightarrow> jsstring" where
  "show_nat n = (if n < 10 then [48 + n] else show_nat (n div 10) @ [48 + n mod 10])"

declare show_nat.simps [simp del]

definition show_num :: "int \<Rightarrow> jsstring" where
  "show_num i = (if i < 0 then 45 # show_nat (nat (- i)) else show_nat (nat i))"

text \<open>
  The text of a value inherited from \<^verbatim>\<open>Object.prototype\<close> inside a template literal: the
  source text of a native function, whose name is the property's but for
  \<^verbatim>\<open>constructor\<close>, and \<^verbatim>\<open>[object Object]\<close> for the prototype object.
\<close>

definition inherited_text :: "jsstring \<Rightarrow> jsstring" where
  "inherited_text k =
     (if k = ascii ''__proto__'' then ascii ''[object Object]''
      else ascii ''function '' @ (if k = ascii ''constructor'' then ascii ''Object'' else k)
             @ ascii ''() { [native code] }'')"

text \<open>\<^verbatim>\<open>${prevInventory[name] || 0}\<close>.\<close>

definition prev_text :: "obj \<Rightarrow> jsstring \<Rightarrow> jsstring" where
  "prev_text prevInventory name =
     (case get_prop prevInventory name of
        Missing \<Rightarrow> show_num 0
      | Own v \<Rightarrow> show_num v
      | Inherited \<Rightarrow> inherited_text name)"

text \<open>
  Lines 177 to 181: the entries of the current inventory whose value is not strictly equal
  to the previous inventory's property of the same name (\<^verbatim>\<open>undefined\<close> and a function
  differ from every number), each rendered as \<^verbatim>\<open>name: prev \<rightarrow> count\<close>; the arrow
  is U+2192.
\<close>

definition changed_entries :: "obj \<Rightarrow> obj \<Rightarrow> (jsstring \<times> int) list" where
  "changed_entries prevInventory currentInventory =
     filter (\<lambda>(name, count). get_prop prevInventory name \<noteq> get_prop currentInventory name)
       currentInventory"

definition change_line :: "obj \<Rightarrow> jsstring \<times> int \<Rightarrow> jsstring" where
  "change_line prevInventory entry =
     (case entry of (name, count) \<Rightarrow>
        name @ ascii '': '' @ prev_text prevInventory name
          @ ascii '' '' @ [0x2192] @ ascii '' '' @ show_num count)"

definition changes :: "obj \<Rightarrow> obj \<Rightarrow> jsstring list" where
  "changes prevInventory currentInventory =
     map (change_line prevInventory) (changed_entries prevInventory currentInventory)"

section \<open>Extraction (getPlayerInventory)\<close>

text \<open>
  A slot of a container, as the profile source sends it: \<^verbatim>\<open>{id, display_name?, Count?}\<close>.
  A missing property is \<open>None\<close>; a slot that is \<^verbatim>\<open>null\<close> or not an object is \<open>None\<close>
  as a whole. A container is the list of its slots, as \<^verbatim>\<open>Object.values\<close> gives it.
\<close>

record slot =
  item_id :: "int option"
  display_name :: "jsstring option"
  Count :: "int option"

type_synonym container = "slot option list"

text \<open>\<^verbatim>\<open>item?.id\<close> is truthy: the slot is an object and its id is there and not 0.\<close>

definition has_id :: "slot option \<Rightarrow> bool" where
  "has_id item = (case item of None \<Rightarrow> False
                  | Some s \<Rightarrow> (case item_id s of None \<Rightarrow> False | Some i \<Rightarrow> i \<noteq> 0))"

text \<open>\<^verbatim>\<open>item.display_name || "Sin nombre"\<close>: the fallback also replaces the empty string.\<close>

definition slot_key :: "slot \<Rightarrow> jsstring" where
  "slot_key s = (case display_name s of None \<Rightarrow> ascii ''Sin nombre''
                 | Some name \<Rightarrow> if name = [] then ascii ''Sin nombre'' else name)"

text \<open>\<^verbatim>\<open>item.Count || 1\<close>: the fallback also replaces a count of 0.\<close>

definition slot_count :: "slot \<Rightarrow> int" where
  "slot_count s = (case Count s of None \<Rightarrow> 1 | Some c \<Rightarrow> if c = 0 then 1 else c)"

text \<open>
  The body of both item loops: skip (\<^verbatim>\<open>continue\<close>) or
  \<^verbatim>\<open>itemsMap.set(key, (itemsMap.get(key) || 0) + count)\<close>. A \<^verbatim>\<open>Map\<close> keeps insertion
  order, and \<^verbatim>\<open>Object.fromEntries\<close> turns it into an object with the same entries.
\<close>

definition add_item :: "slot option \<Rightarrow> obj \<Rightarrow> obj" where
  "add_item item itemsMap =
     (case item of None \<Rightarrow> itemsMap
      | Some s \<Rightarrow>
          if \<not> has_id item then itemsMap
          else AList.update (slot_key s) (get_or0 itemsMap (slot_key s) + slot_count s) itemsMap)"

definition processContainer :: "container \<Rightarrow> obj" where
  "processContainer container = fold add_item container []"

text \<open>
  A storage unit; \<^verbatim>\<open>unit?.containsItems\<close> is falsy for a unit that is no object or has no
  such property.
\<close>

record storage_unit =
  containsItems :: "container option"

definition add_unit :: "storage_unit option \<Rightarrow> obj \<Rightarrow> obj" where
  "add_unit unit itemsMap =
     (case unit of None \<Rightarrow> itemsMap
      | Some u \<Rightarrow> (case containsItems u of None \<Rightarrow> itemsMap
                   | Some items \<Rightarrow> fold add_item items itemsMap))"

definition processStorage :: "storage_unit option list \<Rightarrow> obj" where
  "processStorage storage = fold add_unit storage []"

text \<open>
  The slots that count, in order, and the sum \<open>expected_total\<close> that the specification
  asks for under one display name.
\<close>

definition counted_slots :: "container \<Rightarrow> slot list" where
  "counted_slots container = List.map_filter (\<lambda>item. if has_id item then item else None) container"

definition slots_named :: "jsstring \<Rightarrow> container \<Rightarrow> slot list" where
  "slots_named name container = filter (\<lambda>s. slot_key s = name) (counted_slots container)"

section \<open>Merging the three sources\<close>

text \<open>
  Lines 134 to 138: \<^verbatim>\<open>{...inventory, ...enderchest, ...storage}\<close>. Spreading an object
  into the literal assigns its properties in order.
\<close>

definition spread :: "obj \<Rightarrow> obj \<Rightarrow> obj" where
  "spread source target = fold (\<lambda>(k, v). AList.update k v) source target"

definition mergedInventory :: "obj \<Rightarrow> obj \<Rightarrow> obj \<Rightarrow> obj" where
  "mergedInventory inventory enderchest storage =
     spread storage (spread enderchest (spread inventory []))"

section \<open>Configuration, fetch with retries, the profile\<close>

text \<open>
  The three environment variables the script reads itself; \<^verbatim>\<open>!X\<close> holds for a variable
  that is not set and for the empty string. When one is missing the module throws while it
  loads, before any handler is installed, and the process ends with status 1.
\<close>

record config =
  PLAYER_NAME :: "jsstring option"
  BOT_TOKEN :: "jsstring option"
  CHAT_ID :: "jsstring option"

definition unset :: "jsstring option \<Rightarrow> bool" where
  "unset x = (case x of None \<Rightarrow> True | Some s \<Rightarrow> s = [])"

definition config_missing :: "config \<Rightarrow> bool" where
  "config_missing cfg = (unset (PLAYER_NAME cfg) \<or> unset (BOT_TOKEN cfg) \<or> unset (CHAT_ID cfg))"

definition MAX_RETRIES :: nat where
  "MAX_RETRIES = 3"

text \<open>
  An exception carries its message. A call of \<^verbatim>\<open>fetch\<close> is rejected or gives a response;
  \<^verbatim>\<open>response.json()\<close> is rejected or gives the parsed body. The network is the outcome of
  the \<open>i\<close>-th call, counted from 0.
\<close>

datatype error = Error jsstring

record 'a response =
  ok :: bool
  status :: nat
  json :: "error + 'a"

type_synonym 'a net = "nat \<Rightarrow> error + 'a response"

text \<open>The \<^verbatim>\<open>try\<close> block of fetchWithRetry: a response that is not ok is thrown as an error.\<close>

definition attempt :: "error + 'a response \<Rightarrow> error + 'a response" where
  "attempt outcome =
     (case outcome of Inl e \<Rightarrow> Inl e
      | Inr response \<Rightarrow>
          if \<not> ok response then Inl (Error (ascii ''HTTP error: '' @ show_nat (status response)))
          else Inr response)"

text \<open>
  The \<^verbatim>\<open>for\<close> loop of fetchWithRetry from index \<open>i\<close> on; a loop that ends without
  returning gives \<^verbatim>\<open>undefined\<close>, here \<open>Inr None\<close>.
\<close>

function fetchFrom :: "'a net \<Rightarrow> nat \<Rightarrow> nat \<Rightarrow> error + 'a response option" where
  "fetchFrom net retries i =
     (if i < retries then
        (case attempt (net i) of
           Inr response \<Rightarrow> Inr (Some response)
         | Inl e \<Rightarrow> if i = retries - 1 then Inl e else fetchFrom net retries (i + 1))
      else Inr None)"
  by pat_completeness auto
termination
  by (relation "measure (\<lambda>(net, retries, i). retries - i)") auto

declare fetchFrom.simps [simp del]

definition fetchWithRetry :: "'a net \<Rightarrow> error + 'a response option" where
  "fetchWithRetry net = fetchFrom net MAX_RETRIES 0"

text \<open>
  The part of the profile document that the script reads: \<^verbatim>\<open>data.profiles\<close> (missing, or
  the list of its values), and in each profile \<^verbatim>\<open>current\<close> (strictly \<^verbatim>\<open>true\<close> or not)
  and \<^verbatim>\<open>data?.items\<close> with its three containers.
\<close>

record items =
  items_inventory :: "container option"
  items_enderchest :: "container option"
  items_storage :: "storage_unit option list option"

record profile =
  current :: bool
  profile_items :: "items option"

record api_data =
  profiles :: "profile list option"

text \<open>
  The world of one run: the environment, the profile source, and the document store (each
  document is missing or there, or its read fails; each write fails or not). The outcome of a
  POST to the notification sink is swallowed by sendTelegramMessage and is not part of the
  world.
\<close>

record world =
  env :: config
  profile_api :: "api_data net"
  doc_prev_inventory :: "error + obj option"
  doc_investment_record :: "error + ledger option"
  set_prev_inventory :: "obj \<Rightarrow> error option"
  set_investment_record :: "ledger \<Rightarrow> error option"

text \<open>
  getPlayerInventory: every exception inside its \<^verbatim>\<open>try\<close> block ends in \<^verbatim>\<open>return null\<close>:
  a fetch that used up its retries, a body that does not parse, missing profiles, no
  current profile, a current profile without items, and \<^verbatim>\<open>Object.values\<close> of a container
  that is missing.
\<close>

definition getPlayerInventory :: "world \<Rightarrow> (obj \<times> obj \<times> obj) option" where
  "getPlayerInventory w =
     (case fetchWithRetry (profile_api w) of
        Inl e \<Rightarrow> None
      | Inr None \<Rightarrow> None
      | Inr (Some response) \<Rightarrow>
          (case json response of
             Inl e \<Rightarrow> None
           | Inr data \<Rightarrow>
               (case profiles data of
                  None \<Rightarrow> None
                | Some ps \<Rightarrow>
                    (case find current ps of
                       None \<Rightarrow> None
                     | Some currentProfile \<Rightarrow>
                         (case profile_items currentProfile of
                            None \<Rightarrow> None
                          | Some its \<Rightarrow>
                              (case items_inventory its of
                                 None \<Rightarrow> None
                               | Some inventory \<Rightarrow>
                                   (case items_enderchest its of
                                      None \<Rightarrow> None
                                    | Some enderchest \<Rightarrow>
                                        (case items_storage its of
                                           None \<Rightarrow> None
                                         | Some storage \<Rightarrow>
                                             Some (processContainer inventory,
                                                   processContainer enderchest,
                                                   processStorage storage)))))))))"

section \<open>Notification\<close>

text \<open>\<^verbatim>\<open>changes.join("\n")\<close>.\<close>

fun join_lines :: "jsstring list \<Rightarrow> jsstring" where
  "join_lines [] = []"
| "join_lines [l] = l"
| "join_lines (l # m # ls) = l @ [10] @ join_lines (m # ls)"

text \<open>
  Lines 176 to 185: the header with the player name, and the change lines when there are
  any. The two pictographs are U+1F4CA and U+1F514, each a surrogate pair; the accented
  letter is U+00F3.
\<close>

definition update_message :: "jsstring \<Rightarrow> obj \<Rightarrow> obj \<Rightarrow> jsstring" where
  "update_message player prevInventory currentInventory =
     (let message = [0xD83D, 0xDCCA] @ ascii '' Actualizaci'' @ [0xF3] @ ascii ''n de ''
                      @ player @ ascii '':'' @ [10];
          lines = changes prevInventory currentInventory
      in if length lines > 0
         then message @ [10, 0xD83D, 0xDD14] @ ascii '' Cambios:'' @ [10] @ join_lines lines
         else message)"

text \<open>
  sendTelegramMessage: the body that is posted. The message goes into \<^verbatim>\<open>text\<close> as it is.
  The POST goes through fetchWithRetry; its result and its failure are both dropped.
\<close>

record telegram_request =
  chat_id :: "jsstring option"
  msg_text :: jsstring
  parse_mode :: jsstring

definition sendTelegramMessage :: "config \<Rightarrow> jsstring \<Rightarrow> telegram_request" where
  "sendTelegramMessage cfg message =
     \<lparr>chat_id = CHAT_ID cfg, msg_text = message, parse_mode = ascii ''Markdown''\<rparr>"

section \<open>The run\<close>

definition getFirebaseData ::
  "error + (jsstring \<times> 'a) list option \<Rightarrow> error + (jsstring \<times> 'a) list" where
  "getFirebaseData document =
     (case document of Inl e \<Rightarrow> Inl e | Inr None \<Rightarrow> Inr [] | Inr (Some d) \<Rightarrow> Inr d)"

definition updateFirebaseData :: "error option \<Rightarrow> error + unit" where
  "updateFirebaseData failure = (case failure of Some e \<Rightarrow> Inl e | None \<Rightarrow> Inr ())"

text \<open>
  \<^verbatim>\<open>Promise.all\<close> of two promises is rejected as soon as one of them is. Which error it
  carries when both fail depends on timing; the model takes the first of the list. Whether
  it is rejected does not.
\<close>

definition promise_all :: "error + 'a \<Rightarrow> error + 'b \<Rightarrow> error + 'a \<times> 'b" where
  "promise_all p q =
     (case p of Inl e \<Rightarrow> Inl e
      | Inr x \<Rightarrow> (case q of Inl e \<Rightarrow> Inl e | Inr y \<Rightarrow> Inr (x, y)))"

text \<open>\<^verbatim>\<open>${PLAYER_NAME}\<close> in a template literal.\<close>

definition player :: "world \<Rightarrow> jsstring" where
  "player w = (case PLAYER_NAME (env w) of None \<Rightarrow> ascii ''undefined'' | Some p \<Rightarrow> p)"

text \<open>
  What checkInventoryChanges leaves behind: the error it throws, if any, the requests
  posted to the notification sink, and the two documents handed to \<^verbatim>\<open>setDoc\<close>
  (\<^verbatim>\<open>prev_inventory\<close>, \<^verbatim>\<open>investment_record\<close>), if it got that far.
\<close>

record outcome =
  thrown :: "error option"
  sent :: "telegram_request list"
  writes :: "(obj \<times> ledger) option"

definition checkInventoryChanges :: "world \<Rightarrow> outcome" where
  "checkInventoryChanges w =
     (case getPlayerInventory w of
        None \<Rightarrow> \<lparr>thrown = None, sent = [], writes = None\<rparr>
      | Some (inventory, enderchest, storage) \<Rightarrow>
          let currentInventory = mergedInventory inventory enderchest storage
          in (case promise_all (getFirebaseData (doc_prev_inventory w))
                               (getFirebaseData (doc_investment_record w)) of
                Inl e \<Rightarrow> \<lparr>thrown = Some e, sent = [], writes = None\<rparr>
              | Inr (prevInventory, investmentRecord) \<Rightarrow>
                  (case reconcile currentInventory prevInventory investmentRecord of
                     (newInvestmentRecord, hasChanges) \<Rightarrow>
                       let posted =
                             (if hasChanges
                              then [sendTelegramMessage (env w)
                                      (update_message (player w) prevInventory currentInventory)]
                              else [])
                       in (case promise_all
                                  (updateFirebaseData (set_prev_inventory w currentInventory))
                                  (updateFirebaseData (set_investment_record w newInvestmentRecord)) of
                             Inl e \<Rightarrow> \<lparr>thrown = Some e, sent = posted,
                                       writes = Some (currentInventory, newInvestmentRecord)\<rparr>
                           | Inr u \<Rightarrow> \<lparr>thrown = None, sent = posted,
                                       writes = Some (currentInventory, newInvestmentRecord)\<rparr>))))"

text \<open>
  The main block: a run that returns lets the process end with status 0; a run that throws
  posts the critical-error message (U+1F6A8, the accented letter U+00ED) with the error's
  message and calls \<^verbatim>\<open>process.exit(1)\<close>.
\<close>

record run =
  exit_code :: nat
  messages :: "telegram_request list"
  persisted :: "(obj \<times> ledger) option"

definition main :: "world \<Rightarrow> run" where
  "main w =
     (if config_missing (env w) then \<lparr>exit_code = 1, messages = [], persisted = None\<rparr>
      else
        let r = checkInventoryChanges w
        in (case thrown r of
              None \<Rightarrow> \<lparr>exit_code = 0, messages = sent r, persisted = writes r\<rparr>
            | Some (Error m) \<Rightarrow>
                \<lparr>exit_code = 1,
                 messages = sent r @
                   [sendTelegramMessage (env w)
                      ([0xD83D, 0xDEA8] @ ascii '' Error cr'' @ [0xED] @ ascii ''tico: '' @ m)],
                 persisted = writes r\<rparr>))"

text \<open>
  A run that got the inventory throws exactly when a read or a write of the document store
  fails.
\<close>

definition store_fails :: "world \<Rightarrow> obj \<Rightarrow> bool" where
  "store_fails w currentInventory =
     (case promise_all (getFirebaseData (doc_prev_inventory w))
                       (getFirebaseData (doc_investment_record w)) of
        Inl e \<Rightarrow> True
      | Inr (prevInventory, investmentRecord) \<Rightarrow>
          set_prev_inventory w currentInventory \<noteq> None
          \<or> set_investment_record w
               (newLedger currentInventory prevInventory investmentRecord) \<noteq> None)"

text \<open>
  The profile document is malformed: no profiles object, no profile marked current, or a
  current profile without an items section.
\<close>

definition malformed :: "api_data \<Rightarrow> bool" where
  "malformed data =
     (case profiles data of None \<Rightarrow> True
      | Some ps \<Rightarrow> (case find current ps of None \<Rightarrow> True
                    | Some p \<Rightarrow> profile_items p = None))"

text \<open>Worlds for the examples: a working configuration and an empty, working store.\<close>

definition steve :: config where
  "steve = \<lparr>PLAYER_NAME = Some (ascii ''Steve''), BOT_TOKEN = Some (ascii ''token''),
            CHAT_ID = Some (ascii ''42'')\<rparr>"

definition offline_world :: world where
  "offline_world =
     \<lparr>env = steve, profile_api = (\<lambda>i. Inl (Error (ascii ''network down''))),
      doc_prev_inventory = Inr None, doc_investment_record = Inr None,
      set_prev_inventory = (\<lambda>d. None), set_investment_record = (\<lambda>d. None)\<rparr>"

definition no_profiles_world :: world where
  "no_profiles_world =
     \<lparr>env = steve,
      profile_api = (\<lambda>i. Inr \<lparr>ok = True, status = 200, json = Inr \<lparr>profiles = None\<rparr>\<rparr>),
      doc_prev_inventory = Inr None, doc_investment_record = Inr None,
      set_prev_inventory = (\<lambda>d. None), set_investment_record = (\<lambda>d. None)\<rparr>"

definition bow_profile :: api_data where
  "bow_profile =
     \<lparr>profiles = Some
        [\<lparr>current = False, profile_items = None\<rparr>,
         \<lparr>current = True,
          profile_items = Some
            \<lparr>items_inventory = Some
               [Some \<lparr>item_id = Some 261, display_name = Some (ascii ''Bow''), Count = Some 2\<rparr>],
             items_enderchest = Some [],
             items_storage = Some []\<rparr>\<rparr>]\<rparr>"

definition broken_store_world :: world where
  "broken_store_world =
     \<lparr>env = steve,
      profile_api = (\<lambda>i. if i = 0 then Inl (Error (ascii ''timeout''))
                          else Inr \<lparr>ok = True, status = 200, json = Inr bow_profile\<rparr>),
      doc_prev_inventory = Inr None, doc_investment_record = Inr None,
      set_prev_inventory = (\<lambda>d. None),
      set_investment_record = (\<lambda>d. Some (Error (ascii ''unavailable'')))\<rparr>"

section \<open>Names inherited from the prototype\<close>

lemma inherited_length: "inherited k \<Longrightarrow> length k \<le> 20"
  by (auto simp: inherited_def object_prototype_def ascii_def)

lemma map_of_set_prop:
  "map_of (set_prop k v ob) n =
     (if n = k \<and> \<not> (k = ascii ''__proto__'' \<and> map_of ob k = None) then Some v
      else map_of ob n)"
  by (auto simp: set_prop_def update_conv')

lemma set_prop_distinct:
  "distinct (map fst ob) \<Longrightarrow> distinct (map fst (set_prop k v ob))"
  by (simp add: set_prop_def distinct_update)

lemma falsy_get_or0: "falsy ob k \<Longrightarrow> get_or0 ob k = 0"
  by (auto simp: falsy_def get_prop_def get_or0_def split: option.splits if_splits)

lemma get_or0_falsy: "get_or0 ob k = 0 \<Longrightarrow> \<not> inherited k \<Longrightarrow> falsy ob k"
  by (auto simp: falsy_def get_prop_def get_or0_def split: option.splits)

section \<open>The two loops, entry by entry\<close>

lemma process_change_other:
  "fst entry \<noteq> n \<Longrightarrow> map_of (fst (process_change prev entry st)) n = map_of (fst st) n"
  by (cases entry; cases st)
    (auto simp: process_change_def Let_def map_of_set_prop split: option.splits jsval.splits)

lemma process_changes_absent:
  "n \<notin> fst ` set cur \<Longrightarrow> map_of (fst (process_changes cur prev st)) n = map_of (fst st) n"
  unfolding process_changes_def
proof (induction cur arbitrary: st)
  case Nil
  show ?case by simp
next
  case (Cons e cur)
  from Cons.prems have "fst e \<noteq> n" and "n \<notin> fst ` set cur" by auto
  then show ?case by (simp add: Cons.IH process_change_other)
qed

lemma fold_process_removed_item:
  "fold (process_removed_item cur) entries (led, d) =
     (filter (\<lambda>p. \<not> condemned cur entries (fst p)) led,
      d \<or> (\<exists>k. condemned cur entries k))"
proof (induction entries arbitrary: led d)
  case Nil
  show ?case by (simp add: condemned_def)
next
  case (Cons e entries)
  obtain k v where e: "e = (k, v)" by (cases e)
  have c: "condemned cur (e # entries) x \<longleftrightarrow>
           (x = k \<and> falsy cur k \<and> positive v) \<or> condemned cur entries x" for x
    by (auto simp: condemned_def e)
  show ?case
  proof (cases "falsy cur k \<and> positive v")
    case True
    then have "fold (process_removed_item cur) (e # entries) (led, d) =
               fold (process_removed_item cur) entries (AList.delete k led, True)"
      by (simp add: process_removed_item_def e)
    also have "\<dots> = (filter (\<lambda>p. \<not> condemned cur entries (fst p)) (AList.delete k led),
                     True \<or> (\<exists>k. condemned cur entries k))"
      by (rule Cons.IH)
    also have "filter (\<lambda>p. \<not> condemned cur entries (fst p)) (AList.delete k led) =
               filter (\<lambda>p. \<not> condemned cur (e # entries) (fst p)) led"
      using True by (auto simp: c AList.delete_eq intro!: filter_cong)
    finally show ?thesis using True c by auto
  next
    case False
    then have "fold (process_removed_item cur) (e # entries) (led, d) =
               fold (process_removed_item cur) entries (led, d)"
      by (auto simp: process_removed_item_def e)
    also have "\<dots> = (filter (\<lambda>p. \<not> condemned cur entries (fst p)) led,
                     d \<or> (\<exists>k. condemned cur entries k))"
      by (rule Cons.IH)
    finally show ?thesis using False c by auto
  qed
qed

lemma process_removed_eq:
  "process_removed cur (led, d) =
     (filter (\<lambda>p. \<not> condemned cur led (fst p)) led, d \<or> (\<exists>k. condemned cur led k))"
  by (simp add: process_removed_def fold_process_removed_item)

lemma map_of_filter_keys:
  "map_of (filter (\<lambda>e. P (fst e)) al) k = (if P k then map_of al k else None)"
  by (induction al) auto

lemma map_of_process_removed:
  "map_of (fst (process_removed cur (led, d))) k =
     (if condemned cur led k then None else map_of led k)"
  using map_of_filter_keys [of "\<lambda>k. \<not> condemned cur led k" led k]
  by (simp add: process_removed_eq)

lemma process_change_own:
  "map_of (fst (process_change prev (n, c) (led, d))) n =
     stored_after n c (prev_count prev n) (map_of led n)"
  by (auto simp: process_change_def stored_after_def invested_or0_def get_prop_def Let_def
      map_of_set_prop split: option.splits jsval.splits)

lemma stored_after_depletion:
  assumes "c < p"
    and "(case old of None \<Rightarrow> Some 0 | Some (Num i) \<Rightarrow> Some i | Some Other \<Rightarrow> None) = Some v"
    and "0 \<le> v"
  shows "(case stored_after n c (Some p) old of
            None \<Rightarrow> Some 0 | Some (Num i) \<Rightarrow> Some i | Some Other \<Rightarrow> None)
         = Some (max 0 (v - (p - c)))"
proof (cases old)
  case None
  with assms have "v = 0" by simp
  with None assms(1) show ?thesis
    by (simp add: stored_after_def Let_def)
next
  case (Some x)
  show ?thesis
  proof (cases x)
    case (Num i)
    with Some assms have "i = v" by simp
    with Some Num assms(1,3) show ?thesis
      by (simp add: stored_after_def Let_def min_def max_def)
  next
    case Other
    with Some assms(2) show ?thesis by simp
  qed
qed

lemma process_changes_present:
  assumes "distinct (map fst cur)" and "map_of cur n = Some c"
  shows "map_of (fst (process_changes cur prev (led, d))) n =
           stored_after n c (prev_count prev n) (map_of led n)"
  using assms
proof (induction cur arbitrary: led d)
  case Nil
  then show ?case by simp
next
  case (Cons e cur)
  obtain k c' where e: "e = (k, c')" by (cases e)
  obtain led' d' where step: "process_change prev e (led, d) = (led', d')"
    by (cases "process_change prev e (led, d)")
  have unfold: "process_changes (e # cur) prev (led, d) = process_changes cur prev (led', d')"
    by (simp add: process_changes_def step)
  show ?case
  proof (cases "k = n")
    case True
    with Cons.prems e have c: "c' = c" and notin: "n \<notin> fst ` set cur" by auto
    have "map_of (fst (process_changes cur prev (led', d'))) n = map_of led' n"
      using process_changes_absent [OF notin, of prev "(led', d')"] by simp
    also have "\<dots> = stored_after n c (prev_count prev n) (map_of led n)"
      using process_change_own [of prev n c led d] step e True c by simp
    finally show ?thesis by (simp add: unfold)
  next
    case False
    with Cons.prems e have "distinct (map fst cur)" and "map_of cur n = Some c" by auto
    then have "map_of (fst (process_changes cur prev (led', d'))) n =
               stored_after n c (prev_count prev n) (map_of led' n)"
      by (rule Cons.IH)
    moreover have "map_of led' n = map_of led n"
      using process_change_other [of e n prev "(led, d)"] False e step by simp
    ultimately show ?thesis by (simp add: unfold)
  qed
qed

lemma process_change_distinct:
  "distinct (map fst (fst st)) \<Longrightarrow> distinct (map fst (fst (process_change prev entry st)))"
  by (cases entry; cases st)
    (auto simp: process_change_def Let_def set_prop_distinct split: option.splits jsval.splits)

lemma process_changes_distinct:
  "distinct (map fst (fst st)) \<Longrightarrow> distinct (map fst (fst (process_changes cur prev st)))"
  unfolding process_changes_def
  by (induction cur arbitrary: st) (simp_all add: process_change_distinct)

lemma process_change_same:
  "map_of prev n = Some c \<Longrightarrow> process_change prev (n, c) st = st"
  by (cases st) (simp add: process_change_def prev_count_def get_prop_def)

lemma fold_process_change_same:
  assumes "distinct (map fst cur)" and "set entries \<subseteq> set cur"
  shows "fold (process_change cur) entries st = st"
  using assms(2)
proof (induction entries arbitrary: st)
  case Nil
  show ?case by simp
next
  case (Cons e entries)
  obtain n c where e: "e = (n, c)" by (cases e)
  with Cons.prems assms(1) have "map_of cur n = Some c" by simp
  then have "process_change cur e st = st"
    by (simp add: e process_change_same)
  with Cons show ?case by simp
qed

lemma process_changes_same:
  "distinct (map fst cur) \<Longrightarrow> process_changes cur cur st = st"
  by (simp add: process_changes_def fold_process_change_same)

lemma snd_process_removed:
  "snd (process_removed cur (led, d)) = (d \<or> (\<exists>k. condemned cur led k))"
  by (simp add: process_removed_eq)

lemma process_removed_settled:
  "\<not> condemned cur (fst (process_removed cur (led, d))) k"
  by (auto simp: process_removed_eq condemned_def)

text \<open>
  A name that is neither an own key of the current snapshot nor a property name of
  \<^verbatim>\<open>Object.prototype\<close> loses a positive entry of the record.
\<close>

lemma absent_positive_pruned:
  assumes "map_of currentInventory n = None"
    and "\<not> inherited n"
    and "map_of investmentRecord n = Some v"
    and "positive v"
  shows "map_of (newLedger currentInventory prevInventory investmentRecord) n = None
         \<and> dirty currentInventory prevInventory investmentRecord"
proof -
  obtain led1 d1 where
    p1: "process_changes currentInventory prevInventory (investmentRecord, False) = (led1, d1)"
    by (cases "process_changes currentInventory prevInventory (investmentRecord, False)")
  from assms(1) have "n \<notin> fst ` set currentInventory"
    by (simp add: map_of_eq_None_iff)
  then have "map_of led1 n = map_of investmentRecord n"
    using process_changes_absent [of n currentInventory prevInventory "(investmentRecord, False)"]
    by (simp add: p1)
  with assms(3) have "(n, v) \<in> set led1"
    by (simp add: map_of_SomeD)
  moreover from assms(1,2) have "falsy currentInventory n"
    by (simp add: falsy_def get_prop_def)
  ultimately have "condemned currentInventory led1 n"
    using assms(4) by (auto simp: condemned_def)
  then show ?thesis
    using snd_process_removed [of currentInventory led1 d1]
    by (auto simp: newLedger_def dirty_def reconcile_def p1 map_of_process_removed)
qed

lemmas reconcile_defs =
  newLedger_def dirty_def reconcile_def process_changes_def process_change_def
  process_removed_def process_removed_item_def falsy_def prev_count_def invested_or0_def
  get_prop_def set_prop_def plus_num_def positive_def inherited_def object_prototype_def
  ascii_def

section \<open>Pruning of items that left the inventory\<close>


section \<open>Zero entries of items that left the inventory\<close>

text \<open>
  C1, as stated: a name that the incoming ledger maps to 0 and that is absent from the
  current snapshot is not in the outgoing ledger. The guard \<^verbatim>\<open>invested > 0\<close> of the
  second loop keeps such an entry: ledger \<open>{Bow: 0}\<close>, empty snapshots.
\<close>

theorem zero_entry_survives_counterexample:
  "map_of [(ascii ''Bow'', Num 0)] (ascii ''Bow'') = Some (Num 0)
   \<and> map_of ([] :: obj) (ascii ''Bow'') = None
   \<and> map_of (newLedger [] [] [(ascii ''Bow'', Num 0)]) (ascii ''Bow'') = Some (Num 0)"
  by (simp add: reconcile_defs)

text \<open>
  C1, amended: a name that the incoming ledger maps to 0 and that is absent from the
  current snapshot is still mapped to 0 by the outgoing ledger; the second loop deletes
  only entries with a value greater than 0.
\<close>

theorem zero_entry_of_absent_item_kept:
  assumes "distinct (map fst investmentRecord)"
    and "map_of investmentRecord n = Some (Num 0)"
    and "map_of currentInventory n = None"
  shows "map_of (newLedger currentInventory prevInventory investmentRecord) n = Some (Num 0)"
proof -
  obtain led1 d1 where
    p1: "process_changes currentInventory prevInventory (investmentRecord, False) = (led1, d1)"
    by (cases "process_changes currentInventory prevInventory (investmentRecord, False)")
  from assms(3) have "n \<notin> fst ` set currentInventory"
    by (simp add: map_of_eq_None_iff)
  then have "map_of led1 n = map_of investmentRecord n"
    using process_changes_absent [of n currentInventory prevInventory "(investmentRecord, False)"]
    by (simp add: p1)
  with assms(2) have at_n: "map_of led1 n = Some (Num 0)" by simp
  have "distinct (map fst led1)"
    using process_changes_distinct
      [of "(investmentRecord, False)" currentInventory prevInventory] assms(1)
    by (simp add: p1)
  then have "(n, v) \<in> set led1 \<Longrightarrow> v = Num 0" for v
    using at_n by (simp add: map_of_is_SomeI)
  then have "(n, v) \<in> set led1 \<Longrightarrow> \<not> positive v" for v
    by (fastforce simp: positive_def)
  then have "\<not> condemned currentInventory led1 n"
    by (auto simp: condemned_def)
  then show ?thesis
    by (simp add: newLedger_def reconcile_def p1 map_of_process_removed at_n)
qed

theorem zero_entry_of_absent_item_kept_witness:
  "map_of (newLedger [(ascii ''Sword'', 2)] [] [(ascii ''Bow'', Num 0)]) (ascii ''Bow'')
     = Some (Num 0)"
  using zero_entry_of_absent_item_kept
    [of "[(ascii ''Bow'', Num 0)]" "ascii ''Bow''" "[(ascii ''Sword'', 2)]" "[]"]
  by (simp add: ascii_def)

section \<open>Unchanged inventory\<close>

text \<open>
  C2, as stated: reconciling a snapshot against itself gives \<open>dirty = false\<close> and no
  changes, for every ledger. The second loop still prunes: empty snapshots and the
  ledger \<open>{Bow: 3}\<close> give \<open>dirty = true\<close>.
\<close>

theorem unchanged_inventory_dirty_counterexample:
  "dirty [] [] [(ascii ''Bow'', Num 3)]"
  by (simp add: reconcile_defs)

text \<open>
  C2, amended: reconciling a snapshot \<open>A\<close> against itself gives an empty change set.
  \<open>dirty\<close> is false when every ledger entry with a value greater than 0 names an item with
  a non-zero quantity in \<open>A\<close>. \<open>dirty\<close> is true when some ledger entry with a value greater
  than 0 names an item that is absent from \<open>A\<close> or has quantity 0 in \<open>A\<close>, and that name is
  no property name of \<^verbatim>\<open>Object.prototype\<close>: the second loop prunes the entry.
\<close>

theorem unchanged_inventory:
  assumes "distinct (map fst A)"
  shows "changes A A = []
         \<and> ((\<forall>(k, v) \<in> set L. positive v \<longrightarrow> get_or0 A k \<noteq> 0) \<longrightarrow> \<not> dirty A A L)
         \<and> ((\<exists>(k, v) \<in> set L. positive v \<and> get_or0 A k = 0 \<and> \<not> inherited k)
              \<longrightarrow> dirty A A L)"
proof -
  have "changes A A = []"
    by (simp add: changes_def changed_entries_def)
  moreover have d: "dirty A A L \<longleftrightarrow> (\<exists>k. condemned A L k)"
    by (simp add: dirty_def reconcile_def process_changes_same [OF assms] snd_process_removed)
  have "(\<forall>(k, v) \<in> set L. positive v \<longrightarrow> get_or0 A k \<noteq> 0) \<longrightarrow> \<not> dirty A A L"
    unfolding d by (auto simp: condemned_def dest: falsy_get_or0)
  moreover have "(\<exists>(k, v) \<in> set L. positive v \<and> get_or0 A k = 0 \<and> \<not> inherited k)
                 \<longrightarrow> dirty A A L"
    unfolding d by (fastforce simp: condemned_def dest: get_or0_falsy)
  ultimately show ?thesis by simp
qed

theorem unchanged_inventory_witness:
  "changes [(ascii ''Bow'', 1)] [(ascii ''Bow'', 1)] = []
   \<and> \<not> dirty [(ascii ''Bow'', 1)] [(ascii ''Bow'', 1)] [(ascii ''Bow'', Num 3)]
   \<and> dirty [(ascii ''Bow'', 1)] [(ascii ''Bow'', 1)]
       [(ascii ''Bow'', Num 3), (ascii ''Axe'', Num 2)]"
  using unchanged_inventory [of "[(ascii ''Bow'', 1)]" "[(ascii ''Bow'', Num 3)]"]
    unchanged_inventory [of "[(ascii ''Bow'', 1)]"
      "[(ascii ''Bow'', Num 3), (ascii ''Axe'', Num 2)]"]
  by (simp add: get_or0_def positive_def inherited_def object_prototype_def ascii_def)

section \<open>Running twice\<close>

text \<open>
  C6. After one reconciliation, a second one whose previous snapshot is the first one's
  current snapshot, whose ledger is the first one's outgoing ledger and whose current
  snapshot is unchanged, yields \<open>dirty = false\<close>.
\<close>

theorem second_run_not_dirty:
  assumes "distinct (map fst currentInventory)"
  shows "\<not> dirty currentInventory currentInventory
             (newLedger currentInventory prevInventory investmentRecord)"
proof -
  obtain led1 d1 where
    p1: "process_changes currentInventory prevInventory (investmentRecord, False) = (led1, d1)"
    by (cases "process_changes currentInventory prevInventory (investmentRecord, False)")
  have out: "newLedger currentInventory prevInventory investmentRecord =
             fst (process_removed currentInventory (led1, d1))"
    by (simp add: newLedger_def reconcile_def p1)
  have "\<not> condemned currentInventory
            (newLedger currentInventory prevInventory investmentRecord) k" for k
    unfolding out by (rule process_removed_settled)
  then show ?thesis
    by (simp add: dirty_def reconcile_def process_changes_same [OF assms] snd_process_removed)
qed

theorem second_run_not_dirty_witness:
  "dirty [(ascii ''Diamond'', 15)] [(ascii ''Diamond'', 20)]
     [(ascii ''Diamond'', Num 10), (ascii ''Bow'', Num 3)]
   \<and> newLedger [(ascii ''Diamond'', 15)] [(ascii ''Diamond'', 20)]
       [(ascii ''Diamond'', Num 10), (ascii ''Bow'', Num 3)] = [(ascii ''Diamond'', Num 5)]
   \<and> \<not> dirty [(ascii ''Diamond'', 15)] [(ascii ''Diamond'', 15)]
       (newLedger [(ascii ''Diamond'', 15)] [(ascii ''Diamond'', 20)]
          [(ascii ''Diamond'', Num 10), (ascii ''Bow'', Num 3)])"
proof -
  have "\<not> dirty [(ascii ''Diamond'', 15)] [(ascii ''Diamond'', 15)]
       (newLedger [(ascii ''Diamond'', 15)] [(ascii ''Diamond'', 20)]
          [(ascii ''Diamond'', Num 10), (ascii ''Bow'', Num 3)])"
    using second_run_not_dirty [of "[(ascii ''Diamond'', 15)]"] by simp
  moreover have "reconcile [(ascii ''Diamond'', 15)] [(ascii ''Diamond'', 20)]
     [(ascii ''Diamond'', Num 10), (ascii ''Bow'', Num 3)] = ([(ascii ''Diamond'', Num 5)], True)"
    by (simp add: reconcile_defs)
  ultimately show ?thesis by (simp add: dirty_def newLedger_def)
qed

section \<open>Depletion\<close>

text \<open>
  C4, as stated: for an item of the current snapshot whose quantity fell, and a
  non-negative ledger, the outgoing ledger value is
  \<open>max 0 (prior - (previous - current))\<close>. A current quantity of 0 (two slots of one name
  with counts 1 and -1) is falsy for the second loop, which deletes the entry that the
  first loop left positive: ledger \<open>{Bow: 10}\<close>, previous \<open>{Bow: 5}\<close>, current
  \<open>{Bow: 0}\<close> give no \<open>Bow\<close> entry, not 5.
\<close>

theorem depletion_to_zero_quantity_counterexample:
  "processContainer
     [Some \<lparr>item_id = Some 261, display_name = Some (ascii ''Bow''), Count = Some 1\<rparr>,
      Some \<lparr>item_id = Some 261, display_name = Some (ascii ''Bow''), Count = Some (- 1)\<rparr>]
     = [(ascii ''Bow'', 0)]
   \<and> (0::int) < get_or0 [(ascii ''Bow'', 5)] (ascii ''Bow'')
   \<and> ledger_value [(ascii ''Bow'', Num 10)] (ascii ''Bow'') = Some 10
   \<and> max 0 (10 - (get_or0 [(ascii ''Bow'', 5)] (ascii ''Bow'') - 0)) = 5
   \<and> newLedger [(ascii ''Bow'', 0)] [(ascii ''Bow'', 5)] [(ascii ''Bow'', Num 10)] = []
   \<and> ledger_value (newLedger [(ascii ''Bow'', 0)] [(ascii ''Bow'', 5)] [(ascii ''Bow'', Num 10)])
        (ascii ''Bow'') = Some 0"
  by (simp add: reconcile_defs ledger_value_def get_or0_def processContainer_def add_item_def
      has_id_def slot_key_def slot_count_def)

text \<open>
  C4, amended: for an item name of the current snapshot whose quantity \<open>c\<close> is less than its
  previous quantity \<open>p\<close> (its own value in the previous snapshot, or 0 for a name that is
  missing there and that \<^verbatim>\<open>Object.prototype\<close> does not have), and whose incoming ledger
  value \<open>v\<close> (0 if absent) is not negative, the outgoing ledger value (0 if absent) is
  \<open>max 0 (v - (p - c))\<close> when \<open>c\<close> is not 0, and 0 when \<open>c\<close> is 0 (the entry is pruned if
  still positive); it is never negative.
\<close>

theorem depletion_floor_at_zero:
  assumes "distinct (map fst currentInventory)"
    and "map_of currentInventory n = Some c"
    and "prev_count prevInventory n = Some p"
    and "c < p"
    and "ledger_value investmentRecord n = Some v"
    and "0 \<le> v"
  shows "ledger_value (newLedger currentInventory prevInventory investmentRecord) n =
           Some (if c = 0 then 0 else max 0 (v - (p - c)))
         \<and> (\<exists>w. 0 \<le> w
                \<and> ledger_value (newLedger currentInventory prevInventory investmentRecord) n
                    = Some w)"
proof -
  obtain led1 d1 where
    p1: "process_changes currentInventory prevInventory (investmentRecord, False) = (led1, d1)"
    by (cases "process_changes currentInventory prevInventory (investmentRecord, False)")
  have "map_of led1 n = stored_after n c (Some p) (map_of investmentRecord n)"
    using process_changes_present [OF assms(1,2), of prevInventory investmentRecord False]
    by (simp add: p1 assms(3))
  then have first: "ledger_value led1 n = Some (max 0 (v - (p - c)))"
    using stored_after_depletion [OF assms(4), of "map_of investmentRecord n" v n] assms(5,6)
    by (simp add: ledger_value_def)
  have out: "map_of (newLedger currentInventory prevInventory investmentRecord) n =
             (if condemned currentInventory led1 n then None else map_of led1 n)"
    by (simp add: newLedger_def reconcile_def p1 map_of_process_removed)
  have outgoing: "ledger_value (newLedger currentInventory prevInventory investmentRecord) n =
           Some (if c = 0 then 0 else max 0 (v - (p - c)))"
  proof (cases "c = 0")
    case False
    with assms(2) have "\<not> condemned currentInventory led1 n"
      by (simp add: condemned_def falsy_def get_prop_def)
    with out first False show ?thesis by (simp add: ledger_value_def)
  next
    case True
    have "ledger_value (newLedger currentInventory prevInventory investmentRecord) n = Some 0"
    proof (cases "condemned currentInventory led1 n")
      case True
      with out show ?thesis by (simp add: ledger_value_def)
    next
      case False
      from False assms(2) \<open>c = 0\<close> have nopos: "(n, x) \<in> set led1 \<Longrightarrow> \<not> positive x" for x
        by (auto simp: condemned_def falsy_def get_prop_def)
      have "max 0 (v - (p - c)) \<le> 0"
      proof (cases "map_of led1 n")
        case None
        with first show ?thesis by (simp add: ledger_value_def)
      next
        case (Some x)
        then have "(n, x) \<in> set led1" by (rule map_of_SomeD)
        then have "\<not> positive x" by (rule nopos)
        with first Some show ?thesis
          by (auto simp: ledger_value_def positive_def split: jsval.splits)
      qed
      then have "max 0 (v - (p - c)) = 0" by simp
      with first have "ledger_value led1 n = Some 0" by simp
      with out False show ?thesis by (simp add: ledger_value_def)
    qed
    with True show ?thesis by simp
  qed
  then show ?thesis by auto
qed

theorem depletion_floor_at_zero_witness:
  "ledger_value (newLedger [(ascii ''Diamond'', 15)] [(ascii ''Diamond'', 20)]
       [(ascii ''Diamond'', Num 10)]) (ascii ''Diamond'') = Some 5
   \<and> ledger_value (newLedger [(ascii ''Diamond'', 15)] [(ascii ''Diamond'', 20)]
       [(ascii ''Diamond'', Num 2)]) (ascii ''Diamond'') = Some 0
   \<and> ledger_value (newLedger [(ascii ''constructor'', 2)] [(ascii ''constructor'', 5)] [])
       (ascii ''constructor'') = Some 0"
proof -
  have p: "prev_count [(k, q)] k = Some q" for k q
    by (simp add: prev_count_def get_prop_def)
  have l: "ledger_value [(k, Num i)] k = Some i" "ledger_value [] k = Some 0" for k i
    by (simp_all add: ledger_value_def)
  have "ledger_value (newLedger [(ascii ''Diamond'', 15)] [(ascii ''Diamond'', 20)]
       [(ascii ''Diamond'', Num 10)]) (ascii ''Diamond'') = Some (if (15::int) = 0 then 0 else max 0 (10 - (20 - 15)))"
    using depletion_floor_at_zero [of "[(ascii ''Diamond'', 15)]" "ascii ''Diamond''" 15
      "[(ascii ''Diamond'', 20)]" 20 "[(ascii ''Diamond'', Num 10)]" 10, THEN conjunct1]
    by (simp only: p l) simp
  moreover have "ledger_value (newLedger [(ascii ''Diamond'', 15)] [(ascii ''Diamond'', 20)]
       [(ascii ''Diamond'', Num 2)]) (ascii ''Diamond'') = Some (if (15::int) = 0 then 0 else max 0 (2 - (20 - 15)))"
    using depletion_floor_at_zero [of "[(ascii ''Diamond'', 15)]" "ascii ''Diamond''" 15
      "[(ascii ''Diamond'', 20)]" 20 "[(ascii ''Diamond'', Num 2)]" 2, THEN conjunct1]
    by (simp only: p l) simp
  moreover have "ledger_value (newLedger [(ascii ''constructor'', 2)]
       [(ascii ''constructor'', 5)] []) (ascii ''constructor'')
       = Some (if (2::int) = 0 then 0 else max 0 (0 - (5 - 2)))"
    using depletion_floor_at_zero [of "[(ascii ''constructor'', 2)]" "ascii ''constructor''" 2
      "[(ascii ''constructor'', 5)]" 5 "[]" 0, THEN conjunct1]
    by (simp only: p l) simp
  ultimately show ?thesis by simp
qed

section \<open>Quantity 0 in the current snapshot\<close>

text \<open>
  C10, as stated: when the current snapshot maps a name to 0 and the incoming ledger maps
  it to a value greater than 0, the entry is deleted and \<open>dirty\<close> set, exactly as if the
  name were missing from the snapshot. The first loop runs for a name that is present with
  quantity 0 and can bring the entry down to 0, which the second loop keeps: ledger
  \<open>{Bow: 3}\<close>, previous \<open>{Bow: 5}\<close>, current \<open>{Bow: 0}\<close> leave \<open>{Bow: 0}\<close>, while the
  empty current snapshot leaves the empty ledger.
\<close>

theorem zero_quantity_not_as_absent_counterexample:
  "map_of [(ascii ''Bow'', 0)] (ascii ''Bow'') = Some 0
   \<and> map_of [(ascii ''Bow'', Num 3)] (ascii ''Bow'') = Some (Num 3)
   \<and> newLedger [(ascii ''Bow'', 0)] [(ascii ''Bow'', 5)] [(ascii ''Bow'', Num 3)]
       = [(ascii ''Bow'', Num 0)]
   \<and> newLedger [] [(ascii ''Bow'', 5)] [(ascii ''Bow'', Num 3)] = []"
  by (simp add: reconcile_defs)

text \<open>
  C10, amended: when the current snapshot maps a name to 0, the incoming ledger maps it to
  a value greater than 0 and the previous quantity of the name (0 if absent) is less than
  that value, so that the entry is still positive after the first loop, the second loop
  treats the name as absent (it tests the truthiness of the quantity, not the key): the
  outgoing ledger has no entry for the name and \<open>dirty\<close> is set. For a name that is no
  property name of \<^verbatim>\<open>Object.prototype\<close> that is also the outcome when the name is missing
  from the current snapshot.
\<close>

theorem zero_quantity_pruned_like_absent:
  assumes "distinct (map fst currentInventory)"
    and "map_of currentInventory n = Some 0"
    and "map_of investmentRecord n = Some (Num v)"
    and "v > 0"
    and "get_or0 prevInventory n < v"
  shows "map_of (newLedger currentInventory prevInventory investmentRecord) n = None
         \<and> dirty currentInventory prevInventory investmentRecord
         \<and> (\<not> inherited n \<longrightarrow>
              map_of (newLedger (AList.delete n currentInventory) prevInventory investmentRecord) n
                = None
              \<and> dirty (AList.delete n currentInventory) prevInventory investmentRecord)"
proof -
  obtain led1 d1 where
    p1: "process_changes currentInventory prevInventory (investmentRecord, False) = (led1, d1)"
    by (cases "process_changes currentInventory prevInventory (investmentRecord, False)")
  have "map_of led1 n = stored_after n 0 (prev_count prevInventory n) (Some (Num v))"
    using process_changes_present [OF assms(1,2), of prevInventory investmentRecord False]
    by (simp add: p1 assms(3))
  then obtain w where w: "map_of led1 n = Some (Num w)" "w > 0"
    using assms(4,5)
    by (auto simp: stored_after_def prev_count_def get_prop_def get_or0_def plus_num_def Let_def
        split: option.splits if_splits)
  then have "(n, Num w) \<in> set led1" by (simp add: map_of_SomeD)
  moreover have "falsy currentInventory n"
    by (simp add: falsy_def get_prop_def assms(2))
  ultimately have c: "condemned currentInventory led1 n"
    using w(2) by (auto simp: condemned_def positive_def)
  then have here: "map_of (newLedger currentInventory prevInventory investmentRecord) n = None
      \<and> dirty currentInventory prevInventory investmentRecord"
    using snd_process_removed [of currentInventory led1 d1]
    by (auto simp: newLedger_def dirty_def reconcile_def p1 map_of_process_removed)
  have there: "map_of (newLedger (AList.delete n currentInventory) prevInventory investmentRecord) n
                = None
              \<and> dirty (AList.delete n currentInventory) prevInventory investmentRecord"
    if "\<not> inherited n"
  proof (rule absent_positive_pruned [OF _ that assms(3)])
    show "map_of (AList.delete n currentInventory) n = None"
      by (simp add: delete_conv')
    show "positive (Num v)"
      using assms(4) by (simp add: positive_def)
  qed
  from here there show ?thesis by simp
qed

theorem zero_quantity_pruned_like_absent_witness:
  "processContainer
     [Some \<lparr>item_id = Some 261, display_name = Some (ascii ''Bow''), Count = Some 1\<rparr>,
      Some \<lparr>item_id = Some 261, display_name = Some (ascii ''Bow''), Count = Some (- 1)\<rparr>]
     = [(ascii ''Bow'', 0)]
   \<and> map_of (newLedger [(ascii ''Bow'', 0)] [(ascii ''Bow'', 1)] [(ascii ''Bow'', Num 3)])
       (ascii ''Bow'') = None
   \<and> dirty [(ascii ''Bow'', 0)] [(ascii ''Bow'', 1)] [(ascii ''Bow'', Num 3)]
   \<and> map_of (newLedger [] [(ascii ''Bow'', 1)] [(ascii ''Bow'', Num 3)]) (ascii ''Bow'') = None
   \<and> dirty [] [(ascii ''Bow'', 1)] [(ascii ''Bow'', Num 3)]"
proof -
  have "processContainer
     [Some \<lparr>item_id = Some 261, display_name = Some (ascii ''Bow''), Count = Some 1\<rparr>,
      Some \<lparr>item_id = Some 261, display_name = Some (ascii ''Bow''), Count = Some (- 1)\<rparr>]
     = [(ascii ''Bow'', 0)]"
    by (simp add: processContainer_def add_item_def has_id_def slot_key_def slot_count_def
        get_or0_def ascii_def)
  then show ?thesis
    using zero_quantity_pruned_like_absent [of "[(ascii ''Bow'', 0)]" "ascii ''Bow''"
      "[(ascii ''Bow'', Num 3)]" 3 "[(ascii ''Bow'', 1)]"]
    by (simp add: get_or0_def inherited_def object_prototype_def ascii_def)
qed

section \<open>Extraction of a flat container\<close>

lemma map_of_add_item:
  "map_of (add_item item m) n =
     (case item of None \<Rightarrow> map_of m n
      | Some s \<Rightarrow> if has_id item \<and> slot_key s = n then Some (get_or0 m n + slot_count s)
                  else map_of m n)"
  by (simp add: add_item_def update_conv' split: option.splits)

lemma slots_named_Cons:
  "slots_named n (item # c) =
     (case item of None \<Rightarrow> slots_named n c
      | Some s \<Rightarrow> if has_id item \<and> slot_key s = n then s # slots_named n c
                  else slots_named n c)"
  by (simp add: slots_named_def counted_slots_def List.map_filter_simps split: option.splits)

lemma map_of_fold_add_item:
  "map_of (fold add_item c m) n =
     (if slots_named n c = [] then map_of m n
      else Some (get_or0 m n + sum_list (map slot_count (slots_named n c))))"
proof (induction c arbitrary: m)
  case Nil
  show ?case by (simp add: slots_named_def counted_slots_def List.map_filter_simps)
next
  case (Cons item c)
  show ?case
  proof (cases "\<exists>s. item = Some s \<and> has_id item \<and> slot_key s = n")
    case True
    then obtain s where s: "item = Some s" "has_id item" "slot_key s = n" by blast
    then have named: "slots_named n (item # c) = s # slots_named n c"
      by (simp add: slots_named_Cons)
    have "get_or0 (add_item item m) n = get_or0 m n + slot_count s"
      using map_of_add_item [of item m n] s by (simp add: get_or0_def)
    moreover have "map_of (add_item item m) n = Some (get_or0 m n + slot_count s)"
      using map_of_add_item [of item m n] s by simp
    ultimately show ?thesis
      using Cons.IH [of "add_item item m"] by (simp add: named)
  next
    case False
    then have named: "slots_named n (item # c) = slots_named n c"
      by (auto simp: slots_named_Cons split: option.splits)
    from False have same: "map_of (add_item item m) n = map_of m n"
      using map_of_add_item [of item m n] by (auto split: option.splits)
    then have "get_or0 (add_item item m) n = get_or0 m n"
      by (simp add: get_or0_def)
    with same show ?thesis
      using Cons.IH [of "add_item item m"] by (simp add: named)
  qed
qed

lemma add_item_distinct:
  "distinct (map fst m) \<Longrightarrow> distinct (map fst (add_item item m))"
  by (simp add: add_item_def distinct_update split: option.splits)

lemma fold_add_item_distinct:
  "distinct (map fst m) \<Longrightarrow> distinct (map fst (fold add_item c m))"
  by (induction c arbitrary: m) (simp_all add: add_item_distinct)

lemma processContainer_distinct: "distinct (map fst (processContainer c))"
  by (simp add: processContainer_def fold_add_item_distinct)

lemma processStorage_distinct: "distinct (map fst (processStorage st))"
proof -
  have "distinct (map fst m) \<Longrightarrow> distinct (map fst (fold add_unit st m))" for m
    by (induction st arbitrary: m)
      (simp_all add: add_unit_def fold_add_item_distinct split: option.splits)
  then show ?thesis by (simp add: processStorage_def)
qed

text \<open>
  C9. For every flat container and display name, extraction skips the slots with no item
  id, takes a missing count as 1, and maps the name to the sum of the counts of the
  remaining slots that carry it (\<open>slots_named\<close>; to nothing when there is none). Two slots named alike
  with counts 3 and 5 give 8.
\<close>

theorem processContainer_sums_duplicates:
  "map_of (processContainer container) name =
     (if slots_named name container = [] then None
      else Some (\<Sum>s \<leftarrow> slots_named name container.
                   case Count s of None \<Rightarrow> 1 | Some c \<Rightarrow> if c = 0 then 1 else c))
   \<and> processContainer (None # container) = processContainer container
   \<and> processContainer (Some \<lparr>item_id = None, display_name = d, Count = k\<rparr> # container)
       = processContainer container
   \<and> processContainer [Some \<lparr>item_id = Some 1, display_name = Some (ascii ''Bow''), Count = None\<rparr>]
       = [(ascii ''Bow'', 1)]"
proof -
  have counts: "map slot_count xs =
      map (\<lambda>s. case Count s of None \<Rightarrow> 1 | Some c \<Rightarrow> if c = 0 then 1 else c) xs" for xs
    by (simp add: slot_count_def)
  have "map_of (processContainer container) name =
      (if slots_named name container = [] then None
       else Some (sum_list (map slot_count (slots_named name container))))"
    by (simp add: processContainer_def map_of_fold_add_item get_or0_def)
  then have first: "map_of (processContainer container) name =
     (if slots_named name container = [] then None
      else Some (\<Sum>s \<leftarrow> slots_named name container.
                   case Count s of None \<Rightarrow> 1 | Some c \<Rightarrow> if c = 0 then 1 else c))"
    by (simp only: counts)
  have "processContainer (None # container) = processContainer container"
    by (simp add: processContainer_def add_item_def)
  moreover have
    "processContainer (Some \<lparr>item_id = None, display_name = d, Count = k\<rparr> # container)
       = processContainer container"
    by (simp add: processContainer_def add_item_def has_id_def)
  moreover have
    "processContainer [Some \<lparr>item_id = Some 1, display_name = Some (ascii ''Bow''), Count = None\<rparr>]
       = [(ascii ''Bow'', 1)]"
    by (simp add: processContainer_def add_item_def has_id_def slot_key_def slot_count_def
        get_or0_def ascii_def)
  ultimately show ?thesis using first by simp
qed

theorem processContainer_sums_duplicates_witness:
  "map_of (processContainer
     [Some \<lparr>item_id = Some 261, display_name = Some (ascii ''Bow''), Count = Some 3\<rparr>,
      Some \<lparr>item_id = None, display_name = None, Count = None\<rparr>,
      Some \<lparr>item_id = Some 261, display_name = Some (ascii ''Bow''), Count = Some 5\<rparr>])
     (ascii ''Bow'') = Some 8"
  using processContainer_sums_duplicates [of
     "[Some \<lparr>item_id = Some 261, display_name = Some (ascii ''Bow''), Count = Some 3\<rparr>,
      Some \<lparr>item_id = None, display_name = None, Count = None\<rparr>,
      Some \<lparr>item_id = Some 261, display_name = Some (ascii ''Bow''), Count = Some 5\<rparr>]"
     "ascii ''Bow''" d k]
  by (simp add: slots_named_def counted_slots_def List.map_filter_simps has_id_def slot_key_def
      ascii_def)

section \<open>Collisions between the three sources\<close>

lemma map_of_spread:
  "distinct (map fst source) \<Longrightarrow>
   map_of (spread source target) n =
     (case map_of source n of Some v \<Rightarrow> Some v | None \<Rightarrow> map_of target n)"
  unfolding spread_def
proof (induction source arbitrary: target)
  case Nil
  show ?case by simp
next
  case (Cons e source)
  obtain k v where e: "e = (k, v)" by (cases e)
  from Cons.prems e have d: "distinct (map fst source)" and k: "map_of source k = None"
    by (auto simp: map_of_eq_None_iff)
  show ?case
    using Cons.IH [OF d, of "AList.update k v target"] k
    by (auto simp: e update_conv' split: option.splits)
qed

lemma spread_distinct:
  "distinct (map fst target) \<Longrightarrow> distinct (map fst (spread source target))"
  unfolding spread_def
  by (induction source arbitrary: target) (auto simp: distinct_update)

lemma mergedInventory_distinct:
  "distinct (map fst (mergedInventory inventory enderchest storage))"
  by (simp add: mergedInventory_def spread_distinct)

text \<open>
  C7. For every item name, the merged snapshot has the value of the last source that
  contains the name, in the order inventory, ender chest, storage: a later source replaces
  the value of an earlier one, nothing is summed.
\<close>

theorem merged_last_source_wins:
  assumes "distinct (map fst inventory)"
    and "distinct (map fst enderchest)"
    and "distinct (map fst storage)"
  shows "map_of (mergedInventory inventory enderchest storage) n =
           (case map_of storage n of Some v \<Rightarrow> Some v
            | None \<Rightarrow> (case map_of enderchest n of Some v \<Rightarrow> Some v
                       | None \<Rightarrow> map_of inventory n))"
  by (simp add: mergedInventory_def map_of_spread assms split: option.splits)

theorem merged_last_source_wins_witness:
  "map_of (mergedInventory [(ascii ''Bow'', 1), (ascii ''Axe'', 2)] [(ascii ''Bow'', 5)]
             [(ascii ''Bow'', 7), (ascii ''Gem'', 4)]) (ascii ''Bow'') = Some 7
   \<and> map_of (mergedInventory [(ascii ''Bow'', 1), (ascii ''Axe'', 2)] [(ascii ''Bow'', 5)] [])
       (ascii ''Bow'') = Some 5
   \<and> map_of (mergedInventory [(ascii ''Bow'', 1), (ascii ''Axe'', 2)] [(ascii ''Bow'', 5)] [])
       (ascii ''Axe'') = Some 2"
  using merged_last_source_wins [of "[(ascii ''Bow'', 1), (ascii ''Axe'', 2)]"
      "[(ascii ''Bow'', 5)]" "[(ascii ''Bow'', 7), (ascii ''Gem'', 4)]" "ascii ''Bow''"]
    merged_last_source_wins [of "[(ascii ''Bow'', 1), (ascii ''Axe'', 2)]"
      "[(ascii ''Bow'', 5)]" "[]" "ascii ''Bow''"]
    merged_last_source_wins [of "[(ascii ''Bow'', 1), (ascii ''Axe'', 2)]"
      "[(ascii ''Bow'', 5)]" "[]" "ascii ''Axe''"]
  by (simp add: ascii_def)

section \<open>Exit status\<close>

lemma fetchFrom_exhausted:
  "i < retries \<Longrightarrow> \<forall>j. i \<le> j \<and> j < retries \<longrightarrow> isl (attempt (net j)) \<Longrightarrow>
   isl (fetchFrom net retries i)"
proof (induction net retries i rule: fetchFrom.induct)
  case (1 net retries i)
  from "1.prems" have "isl (attempt (net i))" by simp
  then obtain e where e: "attempt (net i) = Inl e" by (auto simp: isl_def)
  show ?case
  proof (cases "i = retries - 1")
    case True
    with "1.prems"(1) e show ?thesis
      by (subst fetchFrom.simps) simp
  next
    case False
    with "1.prems" have "i + 1 < retries"
      and "\<forall>j. i + 1 \<le> j \<and> j < retries \<longrightarrow> isl (attempt (net j))" by auto
    then have "isl (fetchFrom net retries (i + 1))"
      using "1.IH" [OF "1.prems"(1) e False] by simp
    with "1.prems"(1) e False show ?thesis
      by (subst fetchFrom.simps) simp
  qed
qed

lemma fetchWithRetry_exhausted:
  assumes "\<forall>i < MAX_RETRIES. isl (attempt (net i))"
  shows "isl (fetchWithRetry net)"
  unfolding fetchWithRetry_def
  using assms by (intro fetchFrom_exhausted) (simp_all add: MAX_RETRIES_def)

lemma getPlayerInventory_exhausted:
  "\<forall>i < MAX_RETRIES. isl (attempt (profile_api w i)) \<Longrightarrow> getPlayerInventory w = None"
  using fetchWithRetry_exhausted [of "profile_api w"]
  by (auto simp: getPlayerInventory_def isl_def)

lemma getPlayerInventory_malformed:
  "fetchWithRetry (profile_api w) = Inr (Some response) \<Longrightarrow> json response = Inr data \<Longrightarrow>
   malformed data \<Longrightarrow> getPlayerInventory w = None"
  by (auto simp: getPlayerInventory_def malformed_def split: option.splits)

lemma thrown_checkInventoryChanges:
  "thrown (checkInventoryChanges w) \<noteq> None \<longleftrightarrow>
     (\<exists>inventory enderchest storage.
        getPlayerInventory w = Some (inventory, enderchest, storage)
        \<and> store_fails w (mergedInventory inventory enderchest storage))"
  by (auto simp: checkInventoryChanges_def store_fails_def newLedger_def Let_def
      updateFirebaseData_def promise_all_def
      split: option.splits sum.splits prod.splits)

lemma writes_checkInventoryChanges:
  "getPlayerInventory w = None \<Longrightarrow>
   writes (checkInventoryChanges w) = None \<and> sent (checkInventoryChanges w) = []
   \<and> thrown (checkInventoryChanges w) = None"
  by (simp add: checkInventoryChanges_def)

lemma exit_code_main:
  "\<not> config_missing (env w) \<Longrightarrow>
   exit_code (main w) = (if thrown (checkInventoryChanges w) = None then 0 else 1)
   \<and> persisted (main w) = writes (checkInventoryChanges w)"
  by (auto simp: main_def Let_def split: option.splits error.splits)

text \<open>
  C3, as stated: status 0 only on a clean run, a non-zero status when the profile fetch
  uses up its retries or the profile is malformed. getPlayerInventory catches both and
  returns \<^verbatim>\<open>null\<close>, on which checkInventoryChanges returns at once: the run ends with
  status 0. Here every call of the profile source is rejected.
\<close>

theorem exit_status_fetch_exhausted_counterexample:
  "\<not> config_missing (env offline_world)
   \<and> isl (attempt (profile_api offline_world 0))
   \<and> isl (attempt (profile_api offline_world 1))
   \<and> isl (attempt (profile_api offline_world 2))
   \<and> fetchWithRetry (profile_api offline_world) = Inl (Error (ascii ''network down''))
   \<and> exit_code (main offline_world) = 0"
proof -
  have a: "isl (attempt (profile_api offline_world i))" for i
    by (simp add: offline_world_def attempt_def)
  have c: "\<not> config_missing (env offline_world)"
    by (simp add: offline_world_def steve_def config_missing_def unset_def ascii_def)
  have f: "fetchWithRetry (profile_api offline_world) = Inl (Error (ascii ''network down''))"
    by (simp add: fetchWithRetry_def MAX_RETRIES_def fetchFrom.simps offline_world_def
        attempt_def)
  then have "getPlayerInventory offline_world = None"
    by (simp add: getPlayerInventory_def)
  then have "exit_code (main offline_world) = 0"
    using c by (simp add: main_def checkInventoryChanges_def)
  with a c f show ?thesis by simp
qed

text \<open>
  C3, amended: with the required configuration present, the process exits with status 1
  exactly when the inventory was obtained and a read or a write of the document store
  failed, and with status 0 otherwise; in particular a profile fetch that used up its
  retries and a malformed profile (no profiles object, no current profile, no items
  section) end the run with status 0, with nothing written to the store.
\<close>

theorem exit_status:
  assumes "\<not> config_missing (env w)"
  shows "(exit_code (main w) = 1 \<longleftrightarrow>
            (\<exists>inventory enderchest storage.
               getPlayerInventory w = Some (inventory, enderchest, storage)
               \<and> store_fails w (mergedInventory inventory enderchest storage)))
         \<and> (exit_code (main w) \<noteq> 1 \<longrightarrow> exit_code (main w) = 0)
         \<and> ((\<forall>i < MAX_RETRIES. isl (attempt (profile_api w i))) \<longrightarrow>
               exit_code (main w) = 0 \<and> persisted (main w) = None)
         \<and> (\<forall>response data.
               fetchWithRetry (profile_api w) = Inr (Some response) \<and> json response = Inr data
               \<and> malformed data \<longrightarrow>
               exit_code (main w) = 0 \<and> persisted (main w) = None)"
proof -
  note m = exit_code_main [OF assms]
  have "exit_code (main w) = 1 \<longleftrightarrow> thrown (checkInventoryChanges w) \<noteq> None"
    using m by (cases "thrown (checkInventoryChanges w)") simp_all
  then have one: "exit_code (main w) = 1 \<longleftrightarrow>
            (\<exists>inventory enderchest storage.
               getPlayerInventory w = Some (inventory, enderchest, storage)
               \<and> store_fails w (mergedInventory inventory enderchest storage))"
    by (simp only: thrown_checkInventoryChanges)
  have two: "exit_code (main w) \<noteq> 1 \<longrightarrow> exit_code (main w) = 0"
    using m by (simp split: if_splits)
  have none: "getPlayerInventory w = None \<Longrightarrow>
              exit_code (main w) = 0 \<and> persisted (main w) = None"
    using m writes_checkInventoryChanges [of w] by simp
  have three: "(\<forall>i < MAX_RETRIES. isl (attempt (profile_api w i))) \<longrightarrow>
               exit_code (main w) = 0 \<and> persisted (main w) = None"
  proof (intro impI)
    assume "\<forall>i < MAX_RETRIES. isl (attempt (profile_api w i))"
    then have "getPlayerInventory w = None"
      by (rule getPlayerInventory_exhausted)
    then show "exit_code (main w) = 0 \<and> persisted (main w) = None"
      by (rule none)
  qed
  have four: "\<forall>response data.
               fetchWithRetry (profile_api w) = Inr (Some response) \<and> json response = Inr data
               \<and> malformed data \<longrightarrow>
               exit_code (main w) = 0 \<and> persisted (main w) = None"
  proof (intro allI impI, elim conjE)
    fix response data
    assume "fetchWithRetry (profile_api w) = Inr (Some response)" "json response = Inr data"
      "malformed data"
    then have "getPlayerInventory w = None"
      by (rule getPlayerInventory_malformed)
    then show "exit_code (main w) = 0 \<and> persisted (main w) = None"
      by (rule none)
  qed
  from one two three four show ?thesis by (intro conjI)
qed

theorem exit_status_witness:
  "exit_code (main broken_store_world) = 1 \<and> exit_code (main no_profiles_world) = 0"
proof -
  have cfg: "\<not> config_missing steve"
    by (simp add: steve_def config_missing_def unset_def ascii_def)
  have "fetchWithRetry (profile_api broken_store_world) =
          Inr (Some \<lparr>ok = True, status = 200, json = Inr bow_profile\<rparr>)"
    by (simp add: fetchWithRetry_def MAX_RETRIES_def fetchFrom.simps broken_store_world_def
        attempt_def)
  then have inv: "getPlayerInventory broken_store_world = Some ([(ascii ''Bow'', 2)], [], [])"
    by (simp add: getPlayerInventory_def bow_profile_def processContainer_def processStorage_def
        add_item_def has_id_def slot_key_def slot_count_def get_or0_def ascii_def)
  have "store_fails broken_store_world (mergedInventory [(ascii ''Bow'', 2)] [] [])"
    by (simp add: store_fails_def broken_store_world_def promise_all_def getFirebaseData_def)
  with inv have "exit_code (main broken_store_world) = 1"
    using exit_status [of broken_store_world] cfg by (simp add: broken_store_world_def)
  moreover have "fetchWithRetry (profile_api no_profiles_world) =
          Inr (Some \<lparr>ok = True, status = 200, json = Inr \<lparr>profiles = None\<rparr>\<rparr>)"
    by (simp add: fetchWithRetry_def MAX_RETRIES_def fetchFrom.simps no_profiles_world_def
        attempt_def)
  then have "exit_code (main no_profiles_world) = 0"
    using exit_status [of no_profiles_world] cfg
    by (simp add: no_profiles_world_def malformed_def)
  ultimately show ?thesis by simp
qed

section \<open>Length of the notification\<close>

lemma length_update_message:
  "length (update_message label prevInventory currentInventory) =
     22 + length label
       + (if changes prevInventory currentInventory = [] then 0
          else 13 + length (join_lines (changes prevInventory currentInventory)))"
  by (simp add: update_message_def Let_def ascii_def)

text \<open>
  C8, as stated: the text handed to the notification sink is cut to a fixed maximum of
  about 4000 units. sendTelegramMessage posts the message as it is, and nothing on the way
  shortens it: one new item with a name of 4001 units gives a text of 4048 units.
\<close>

theorem notification_not_truncated_counterexample:
  "length (msg_text (sendTelegramMessage steve
      (update_message (ascii ''Steve'') [] [(replicate 4001 97, 1)]))) = 4048"
proof -
  have "\<not> inherited (replicate 4001 97)"
    using inherited_length [of "replicate 4001 97"] by auto
  then have "changes [] [(replicate 4001 97, 1)]
             = [replicate 4001 97 @ ascii '': 0 '' @ [0x2192] @ ascii '' 1'']"
    by (simp add: changes_def changed_entries_def change_line_def prev_text_def get_prop_def
        show_num_def show_nat.simps ascii_def)
  then show ?thesis
    by (simp add: sendTelegramMessage_def length_update_message ascii_def)
qed

text \<open>
  C8, amended: for every player label and change set, the text posted to the notification
  sink is the whole formatted message, without truncation: 22 units of header around the
  label, and, when there are changes, 13 units of heading and the change lines joined by
  line feeds.
\<close>

theorem notification_posted_whole:
  "msg_text (sendTelegramMessage cfg (update_message label prevInventory currentInventory))
     = update_message label prevInventory currentInventory
   \<and> length (msg_text
        (sendTelegramMessage cfg (update_message label prevInventory currentInventory)))
     = 22 + length label
       + (if changes prevInventory currentInventory = [] then 0
          else 13 + length (join_lines (changes prevInventory currentInventory)))"
  by (simp add: sendTelegramMessage_def length_update_message)

theorem notification_posted_whole_witness:
  "msg_text (sendTelegramMessage steve
      (update_message (ascii ''Steve'') [(ascii ''Diamond'', 20)] [(ascii ''Diamond'', 15)]))
     = [0xD83D, 0xDCCA] @ ascii '' Actualizaci'' @ [0xF3] @ ascii ''n de Steve:'' @ [10, 10]
       @ [0xD83D, 0xDD14] @ ascii '' Cambios:'' @ [10] @ ascii ''Diamond: 20 '' @ [0x2192]
       @ ascii '' 15''
   \<and> length (msg_text (sendTelegramMessage steve
      (update_message (ascii ''Steve'') [(ascii ''Diamond'', 20)] [(ascii ''Diamond'', 15)])))
     = 56"
proof -
  have c: "changes [(ascii ''Diamond'', 20)] [(ascii ''Diamond'', 15)]
           = [ascii ''Diamond: 20 '' @ [0x2192] @ ascii '' 15'']"
    by (simp add: changes_def changed_entries_def change_line_def prev_text_def get_prop_def
        show_num_def show_nat.simps ascii_def)
  have "update_message (ascii ''Steve'') [(ascii ''Diamond'', 20)] [(ascii ''Diamond'', 15)]
     = [0xD83D, 0xDCCA] @ ascii '' Actualizaci'' @ [0xF3] @ ascii ''n de Steve:'' @ [10, 10]
       @ [0xD83D, 0xDD14] @ ascii '' Cambios:'' @ [10] @ ascii ''Diamond: 20 '' @ [0x2192]
       @ ascii '' 15''"
    by (simp add: update_message_def c Let_def) (simp add: ascii_def)
  then show ?thesis
    using notification_posted_whole [of steve "ascii ''Steve''" "[(ascii ''Diamond'', 20)]"
        "[(ascii ''Diamond'', 15)]"]
    by (simp add: c) (simp add: ascii_def)
qed

end
